theory Spec2Isabelle
  imports Complex_Main "HOL-Library.Multiset"
begin

section \<open>Data model (src/types.ts)\<close>

record Email =
  subject :: string
  date :: string
  summary :: string

record OrganizedEmailGroup =
  senderName :: string
  senderEmail :: string
  emails :: "Email list"

datatype SortOrder = newest | oldest

section \<open>The array operations the view model uses\<close>

text \<open>
  \<^verbatim>\<open>Array.prototype.sort(comparefn)\<close> is a stable sort: the result is the permutation
  of the array that is ordered by the sign of the comparator and keeps elements that compare
  as equal in their input order. For a consistent comparator that permutation is unique, and
  stable insertion from the right computes it: an element is placed in front of the first
  element it does not compare greater than.
\<close>

fun insert_sorted :: "('a \<Rightarrow> 'a \<Rightarrow> int) \<Rightarrow> 'a \<Rightarrow> 'a list \<Rightarrow> 'a list" where
  "insert_sorted cmp x [] = [x]"
| "insert_sorted cmp x (y # ys) =
     (if cmp x y \<le> 0 then x # y # ys else y # insert_sorted cmp x ys)"

definition array_sort :: "('a \<Rightarrow> 'a \<Rightarrow> int) \<Rightarrow> 'a list \<Rightarrow> 'a list" where
  "array_sort cmp xs = foldr (insert_sorted cmp) xs []"

text \<open>
  \<^verbatim>\<open>Array.prototype.filter((element, index) => ...)\<close>: the callback sees each element
  with its index, and the elements it accepts are kept in order.
\<close>

definition array_filter :: "('a \<Rightarrow> nat \<Rightarrow> bool) \<Rightarrow> 'a list \<Rightarrow> 'a list" where
  "array_filter p xs = map fst (filter (\<lambda>(x, index). p x index) (zip xs [0..<length xs]))"

section \<open>View-model shaping (src/App.tsx)\<close>

text \<open>
  src/App.tsx holds two revisions of the component. The one modelled is the first, the one with
  \<open>handleDeleteEmail\<close>, whose comparators place invalid dates at the end.
\<close>

text \<open>
  \<^verbatim>\<open>new Date(s).getTime()\<close> is the platform's date parser. It is a parameter
  \<open>getTime\<close> of the model: \<open>Some t\<close> is the time value \<open>t\<close> in milliseconds, \<open>None\<close> is
  \<^verbatim>\<open>NaN\<close> (an unparsable date). Time values are integers of magnitude at most
  \<open>8.64 * 10^15\<close>, so the sign of a difference of two of them is the sign of the exact
  difference.
\<close>

type_synonym date_parser = "string \<Rightarrow> int option"

text \<open>The comparator of the sort of one group's emails (App.tsx, lines 144-158).\<close>

definition compareEmails :: "date_parser \<Rightarrow> SortOrder \<Rightarrow> Email \<Rightarrow> Email \<Rightarrow> int" where
  "compareEmails getTime sortOrder a b =
     (let timeA = getTime (date a);
          timeB = getTime (date b);
          validA = (timeA \<noteq> None);
          validB = (timeB \<noteq> None)
      in if validA \<and> validB
         then (if sortOrder = newest then the timeB - the timeA else the timeA - the timeB)
         else if validA then - 1
         else if validB then 1
         else 0)"

definition groupsWithSortedEmails ::
    "date_parser \<Rightarrow> SortOrder \<Rightarrow> OrganizedEmailGroup list \<Rightarrow> OrganizedEmailGroup list" where
  "groupsWithSortedEmails getTime sortOrder organizedData =
     map (\<lambda>group. group\<lparr>emails := array_sort (compareEmails getTime sortOrder) (emails group)\<rparr>)
       organizedData"

text \<open>\<^verbatim>\<open>a.emails[0]\<close>: the first email, or \<^verbatim>\<open>undefined\<close> for a group without emails.\<close>

definition firstEmail :: "OrganizedEmailGroup \<Rightarrow> Email option" where
  "firstEmail g = (case emails g of [] \<Rightarrow> None | e # _ \<Rightarrow> Some e)"

text \<open>The comparator of the sort of the groups (App.tsx, lines 161-181).\<close>

definition compareGroups ::
    "date_parser \<Rightarrow> SortOrder \<Rightarrow> OrganizedEmailGroup \<Rightarrow> OrganizedEmailGroup \<Rightarrow> int" where
  "compareGroups getTime sortOrder a b =
     (case (firstEmail a, firstEmail b) of
        (None, None) \<Rightarrow> 0
      | (None, Some _) \<Rightarrow> 1
      | (Some _, None) \<Rightarrow> - 1
      | (Some firstEmailA, Some firstEmailB) \<Rightarrow>
          (let timeA = getTime (date firstEmailA);
               timeB = getTime (date firstEmailB);
               validA = (timeA \<noteq> None);
               validB = (timeB \<noteq> None)
           in if validA \<and> validB
              then (if sortOrder = newest then the timeB - the timeA else the timeA - the timeB)
              else if validA then - 1
              else if validB then 1
              else 0))"

text \<open>
  \<open>sortedData\<close> (App.tsx, lines 139-182): \<open>None\<close> is \<^verbatim>\<open>null\<close>, the state before any
  result exists.
\<close>

definition sortedData ::
    "date_parser \<Rightarrow> SortOrder \<Rightarrow> OrganizedEmailGroup list option
      \<Rightarrow> OrganizedEmailGroup list option" where
  "sortedData getTime sortOrder organizedData =
     (case organizedData of
        None \<Rightarrow> None
      | Some currentData \<Rightarrow>
          Some (array_sort (compareGroups getTime sortOrder)
                  (groupsWithSortedEmails getTime sortOrder currentData)))"

text \<open>
  \<open>handleDeleteEmail\<close> (App.tsx, lines 119-137), as the function it passes to the state
  setter: from the current result to the next one. \<open>emailIndex\<close> is a JavaScript number;
  an array index equals it only when it is that non-negative integer.
\<close>

definition handleDeleteEmail ::
    "OrganizedEmailGroup list option \<Rightarrow> string \<Rightarrow> int \<Rightarrow> OrganizedEmailGroup list option" where
  "handleDeleteEmail currentData sender emailIndex =
     (case currentData of
        None \<Rightarrow> None
      | Some groups \<Rightarrow>
          Some (filter (\<lambda>group. length (emails group) > 0)
                  (map (\<lambda>group.
                          if senderEmail group = sender
                          then group\<lparr>emails :=
                                 array_filter (\<lambda>_ index. int index \<noteq> emailIndex) (emails group)\<rparr>
                          else group)
                     groups)))"

section \<open>Extraction contract (src/services/geminiService.ts)\<close>

text \<open>A parsed JSON document, as \<^verbatim>\<open>JSON.parse\<close> returns it.\<close>

datatype json =
    JNull
  | JBool bool
  | JNumber real
  | JString string
  | JArray "json list"
  | JObject "(string \<times> json) list"

text \<open>
  A thrown value: an \<^verbatim>\<open>Error\<close> instance (of any subclass) with its message, or a
  value that is not an \<^verbatim>\<open>Error\<close>.
\<close>

datatype thrown = ErrorObject string | OtherValue

text \<open>The response schema handed to the model (lines 17-56); the strings are the descriptions.\<close>

datatype Schema =
    STRING string
  | ARRAY string Schema
  | OBJECT "(string \<times> Schema) list" "string list"

definition schema :: Schema where
  "schema =
     ARRAY ''A list of email groups, where each group belongs to a unique sender.''
       (OBJECT
          [(''senderName'', STRING ''The name of the sender (e.g., 'John Doe').''),
           (''senderEmail'',
              STRING ''The email address of the sender (e.g., 'john.doe@example.com').''),
           (''emails'',
              ARRAY ''A list of emails from this sender.''
                (OBJECT
                   [(''subject'', STRING ''The subject line of the email.''),
                    (''date'',
                       STRING ''The date the email was sent, in ISO 8601 format (e.g., '2024-07-30T10:00:00Z').''),
                    (''summary'',
                       STRING ''A concise, one-paragraph summary of the email body.'')]
                   [''subject'', ''date'', ''summary'']))]
          [''senderName'', ''senderEmail'', ''emails''])"

record GoogleGenAI =
  apiKey :: string

record GenerateContentParameters =
  model :: string
  contents :: string
  responseMimeType :: string
  responseSchema :: Schema

text \<open>
  The module's state: the variable \<open>ai\<close> (line 4), and the requests sent to the external
  model so far, which the code does not hold but its calls produce.
\<close>

record service_state =
  ai :: "GoogleGenAI option"
  sent :: "GenerateContentParameters list"

definition initial_state :: service_state where
  "initial_state = \<lparr>ai = None, sent = []\<rparr>"

definition configuration_message :: string where
  "configuration_message =
     ''AI Service Error: The API_KEY environment variable is missing. Please ensure it's configured to enable AI features.''"

definition unexpected_format_message :: string where
  "unexpected_format_message = ''AI returned data in an unexpected format.''"

definition generic_message :: string where
  "generic_message =
     ''Failed to organize emails. The AI model might be unable to process the input. Please try again with clearer email content.''"

text \<open>
  \<open>getAiClient\<close> (lines 6-15). \<open>API_KEY\<close> is \<^verbatim>\<open>process.env.API_KEY\<close>: \<open>None\<close> when the
  variable is not set. The empty string is falsy as well.
\<close>

definition getAiClient ::
    "string option \<Rightarrow> service_state \<Rightarrow> (thrown + GoogleGenAI) \<times> service_state" where
  "getAiClient API_KEY st =
     (case ai st of
        Some client \<Rightarrow> (Inr client, st)
      | None \<Rightarrow>
          (case API_KEY of
             None \<Rightarrow> (Inl (ErrorObject configuration_message), st)
           | Some key \<Rightarrow>
               if key = [] then (Inl (ErrorObject configuration_message), st)
               else (Inr \<lparr>apiKey = key\<rparr>, st\<lparr>ai := Some \<lparr>apiKey = key\<rparr>\<rparr>)))"

definition newline :: string where
  "newline = [CHR 0x0A]"

definition prompt :: "string \<Rightarrow> string" where
  "prompt emailContent =
     concat
       [newline,
        ''        You are an expert email organization assistant.'', newline,
        ''        Analyze the following block of text which contains one or more emails.'', newline,
        ''        Extract the sender's name, sender's email address, subject, date, and a concise summary of the email body for each email.'', newline,
        ''        The date for each email must be in the ISO 8601 format (e.g., '2024-07-30T10:00:00Z').'', newline,
        ''        Group the results by the sender's email address.'', newline,
        ''        Provide the output in the structured JSON format defined by the provided schema.'', newline,
        ''        If you cannot find a piece of information, represent it as an empty string.'', newline,
        newline,
        ''        Email Content:'', newline,
        ''        ---'', newline,
        ''        '', emailContent, newline,
        ''        ---'', newline,
        ''    '']"

text \<open>
  \<^verbatim>\<open>String.prototype.trim\<close> on a string of 8-bit characters: the white space and line
  terminators below 256 are tab, line feed, vertical tab, form feed, carriage return, space
  and no-break space.
\<close>

definition white_space :: "char \<Rightarrow> bool" where
  "white_space c = (of_char c \<in> {9, 10, 11, 12, 13, 32, 160 :: nat})"

definition trim :: "string \<Rightarrow> string" where
  "trim s = rev (dropWhile white_space (rev (dropWhile white_space s)))"

text \<open>\<^verbatim>\<open>message.startsWith(p)\<close>.\<close>

definition startsWith :: "string \<Rightarrow> string \<Rightarrow> bool" where
  "startsWith message p = (take (length p) message = p)"

text \<open>
  The prefix \<^verbatim>\<open>AI Service Error:\<close> is the application's own: \<open>getAiClient\<close> is the only
  code that writes a message with it, so that the \<^verbatim>\<open>catch\<close> block can tell its
  configuration error from the rest. An error that comes from outside the application, the
  rejection of the SDK's call or the \<^verbatim>\<open>SyntaxError\<close> of the platform's parser, has a
  message of the SDK's or of the engine's making, one without that prefix.
\<close>

typedef foreign_message = "{m :: string. \<not> startsWith m ''AI Service Error:''}"
  by (rule exI [of _ "[]"]) (simp add: startsWith_def)

text \<open>
  A value thrown by code outside the application: an \<^verbatim>\<open>Error\<close> with its message, or a
  value that is not an \<^verbatim>\<open>Error\<close>. In the application it is the thrown value \<open>thrown_of\<close>.
\<close>

datatype foreign_thrown = ForeignError foreign_message | ForeignValue

definition thrown_of :: "foreign_thrown \<Rightarrow> thrown" where
  "thrown_of e =
     (case e of
        ForeignError m \<Rightarrow> ErrorObject (Rep_foreign_message m)
      | ForeignValue \<Rightarrow> OtherValue)"

text \<open>
  What \<^verbatim>\<open>await client.models.generateContent(...)\<close> does once the request is sent:
  it rejects with a thrown value, or resolves to a response with the given \<open>text\<close>.
\<close>

datatype generate_outcome = Rejects foreign_thrown | Resolves string

text \<open>
  \<^verbatim>\<open>JSON.parse\<close> is the platform's parser, a parameter of the model: \<open>Inr v\<close> is the
  parsed value, \<open>Inl m\<close> is a thrown \<^verbatim>\<open>SyntaxError\<close> with message \<open>m\<close>.
\<close>

type_synonym json_parser = "string \<Rightarrow> foreign_message + json"

text \<open>The body of the \<^verbatim>\<open>try\<close> block (lines 76-94).\<close>

definition organizeEmails_try ::
    "string option \<Rightarrow> json_parser \<Rightarrow> generate_outcome \<Rightarrow> service_state \<Rightarrow> string
      \<Rightarrow> (thrown + json list) \<times> service_state" where
  "organizeEmails_try API_KEY JSON_parse outcome st emailContent =
     (case getAiClient API_KEY st of
        (Inl error, st1) \<Rightarrow> (Inl error, st1)
      | (Inr client, st1) \<Rightarrow>
          (let request = \<lparr>model = ''gemini-2.5-flash'', contents = prompt emailContent,
                           responseMimeType = ''application/json'', responseSchema = schema\<rparr>;
               st2 = st1\<lparr>sent := sent st1 @ [request]\<rparr>
           in case outcome of
                Rejects error \<Rightarrow> (Inl (thrown_of error), st2)
              | Resolves text \<Rightarrow>
                  (case JSON_parse (trim text) of
                     Inl message \<Rightarrow> (Inl (ErrorObject (Rep_foreign_message message)), st2)
                   | Inr parsedJson \<Rightarrow>
                       (case parsedJson of
                          JArray elements \<Rightarrow> (Inr elements, st2)
                        | _ \<Rightarrow> (Inl (ErrorObject unexpected_format_message), st2)))))"

text \<open>The \<^verbatim>\<open>catch\<close> block (lines 95-104): the value it throws for a caught one.\<close>

definition organizeEmails_catch :: "thrown \<Rightarrow> thrown" where
  "organizeEmails_catch error =
     (case error of
        ErrorObject message \<Rightarrow>
          if startsWith message ''AI Service Error:'' then error
          else ErrorObject generic_message
      | OtherValue \<Rightarrow> ErrorObject generic_message)"

text \<open>
  \<open>organizeEmails\<close> (lines 59-105): \<open>Inl\<close> is the thrown value the returned promise rejects
  with, \<open>Inr\<close> the array it resolves to. \<open>outcome\<close> is what the external call does if it
  is made.
\<close>

definition organizeEmails ::
    "string option \<Rightarrow> json_parser \<Rightarrow> generate_outcome \<Rightarrow> service_state \<Rightarrow> string
      \<Rightarrow> (thrown + json list) \<times> service_state" where
  "organizeEmails API_KEY JSON_parse outcome st emailContent =
     (case organizeEmails_try API_KEY JSON_parse outcome st emailContent of
        (Inl error, st') \<Rightarrow> (Inl (organizeEmails_catch error), st')
      | (Inr result, st') \<Rightarrow> (Inr result, st'))"


section \<open>The vocabulary of the properties\<close>

text \<open>
  What a group holds when the order of its emails is left out: the sender and the multiset of
  the emails.
\<close>

definition group_contents :: "OrganizedEmailGroup \<Rightarrow> string \<times> string \<times> Email multiset" where
  "group_contents g = (senderName g, senderEmail g, mset (emails g))"

text \<open>The sequence without its element at index \<open>n\<close>.\<close>

definition remove_at :: "nat \<Rightarrow> 'a list \<Rightarrow> 'a list" where
  "remove_at n xs = take n xs @ drop (Suc n) xs"

text \<open>Every date of the result parses to a valid time.\<close>

definition all_dates_valid :: "date_parser \<Rightarrow> OrganizedEmailGroup list \<Rightarrow> bool" where
  "all_dates_valid getTime groups =
     (\<forall>g\<in>set groups. \<forall>e\<in>set (emails g). getTime (date e) \<noteq> None)"

text \<open>No two emails of one group have the same time.\<close>

definition times_distinct_within_groups :: "date_parser \<Rightarrow> OrganizedEmailGroup list \<Rightarrow> bool" where
  "times_distinct_within_groups getTime groups =
     (\<forall>g\<in>set groups. distinct (map (\<lambda>e. getTime (date e)) (emails g)))"

text \<open>Every group has at least one email.\<close>

definition no_empty_group :: "OrganizedEmailGroup list \<Rightarrow> bool" where
  "no_empty_group groups = (\<forall>g\<in>set groups. emails g \<noteq> [])"

text \<open>A result read backwards: the groups in reverse order, each with its emails in reverse order.\<close>

definition reverse_emails :: "OrganizedEmailGroup \<Rightarrow> OrganizedEmailGroup" where
  "reverse_emails g = g\<lparr>emails := rev (emails g)\<rparr>"

definition reversed_result :: "OrganizedEmailGroup list \<Rightarrow> OrganizedEmailGroup list" where
  "reversed_result groups = rev (map reverse_emails groups)"

text \<open>The time of the newest and of the oldest email of a group, among its valid dates.\<close>

definition valid_times :: "date_parser \<Rightarrow> OrganizedEmailGroup \<Rightarrow> int list" where
  "valid_times getTime g = List.map_filter (\<lambda>e. getTime (date e)) (emails g)"

definition newest_time :: "date_parser \<Rightarrow> OrganizedEmailGroup \<Rightarrow> int" where
  "newest_time getTime g = Max (set (valid_times getTime g))"

definition oldest_time :: "date_parser \<Rightarrow> OrganizedEmailGroup \<Rightarrow> int" where
  "oldest_time getTime g = Min (set (valid_times getTime g))"

text \<open>
  Of any two different groups, one has both its newest and its oldest email strictly later
  than the other has.
\<close>

definition groups_strictly_ordered :: "date_parser \<Rightarrow> OrganizedEmailGroup list \<Rightarrow> bool" where
  "groups_strictly_ordered getTime groups =
     (\<forall>g\<in>set groups. \<forall>h\<in>set groups. g \<noteq> h \<longrightarrow>
        (newest_time getTime g < newest_time getTime h \<and> oldest_time getTime g < oldest_time getTime h)
      \<or> (newest_time getTime h < newest_time getTime g \<and> oldest_time getTime h < oldest_time getTime g))"

text \<open>
  A parsed value honors the required fields of the schema: a group is an object with
  \<open>senderName\<close>, \<open>senderEmail\<close> and an array \<open>emails\<close>, each element of which is an object
  with \<open>subject\<close>, \<open>date\<close> and \<open>summary\<close>.
\<close>

definition has_fields :: "string list \<Rightarrow> json \<Rightarrow> bool" where
  "has_fields required v =
     (case v of JObject members \<Rightarrow> list_all (\<lambda>k. map_of members k \<noteq> None) required | _ \<Rightarrow> False)"

definition email_honors_schema :: "json \<Rightarrow> bool" where
  "email_honors_schema v = has_fields [''subject'', ''date'', ''summary''] v"

definition group_honors_schema :: "json \<Rightarrow> bool" where
  "group_honors_schema v =
     (has_fields [''senderName'', ''senderEmail'', ''emails''] v \<and>
      (case v of
         JObject members \<Rightarrow>
           (case map_of members ''emails'' of
              Some (JArray es) \<Rightarrow> list_all email_honors_schema es
            | _ \<Rightarrow> False)
       | _ \<Rightarrow> False))"

section \<open>Example data\<close>

text \<open>
  The values of \<^verbatim>\<open>new Date(s).getTime()\<close> on the date strings of the examples:
  midnight UTC of the day, in milliseconds. Every other string of the examples (the empty
  string, free text) is an invalid date.
\<close>

definition example_times :: "(string \<times> int) list" where
  "example_times =
     [(''2024-07-01'', 1719792000000),
      (''2024-07-10'', 1720569600000),
      (''2024-07-15'', 1721001600000)]"

definition example_getTime :: date_parser where
  "example_getTime s = map_of example_times s"

definition mail :: "string \<Rightarrow> string \<Rightarrow> Email" where
  "mail subj d = \<lparr>subject = subj, date = d, summary = ''''\<rparr>"

definition group_of :: "string \<Rightarrow> Email list \<Rightarrow> OrganizedEmailGroup" where
  "group_of address es = \<lparr>senderName = '''', senderEmail = address, emails = es\<rparr>"

text \<open>The result of the end-to-end scenario: two emails of one sender, one of another.\<close>

definition example_result :: "OrganizedEmailGroup list" where
  "example_result =
     [group_of ''a@x.com'' [mail ''E1'' ''2024-07-01'', mail ''E2'' ''2024-07-15''],
      group_of ''b@y.com'' [mail ''E3'' ''2024-07-10'']]"

text \<open>
  The values of \<^verbatim>\<open>JSON.parse\<close> on the response texts of the examples: an empty array,
  an array of one empty object, an empty object, and the empty text, which is a syntax error.
\<close>

definition example_JSON_parse :: json_parser where
  "example_JSON_parse s =
     (if s = ''[]'' then Inr (JArray [])
      else if s = ''[{}]'' then Inr (JArray [JObject []])
      else if s = ''{}'' then Inr (JObject [])
      else Inl (Abs_foreign_message ''Unexpected end of JSON input''))"

text \<open>One group with two emails of the same day.\<close>

definition example_tied :: "OrganizedEmailGroup list" where
  "example_tied = [group_of ''a@x.com'' [mail ''E1'' ''2024-07-01'', mail ''E2'' ''2024-07-01'']]"

text \<open>Two groups whose time ranges do not overlap.\<close>

definition example_separate :: "OrganizedEmailGroup list" where
  "example_separate =
     [group_of ''a@x.com'' [mail ''E1'' ''2024-07-01'', mail ''E2'' ''2024-07-10''],
      group_of ''b@y.com'' [mail ''E3'' ''2024-07-15'']]"

section \<open>Sorting: permutation and order\<close>

lemma mset_insert_sorted: "mset (insert_sorted cmp x xs) = add_mset x (mset xs)"
  by (induction xs) auto

lemma mset_array_sort: "mset (array_sort cmp xs) = mset xs"
  by (induction xs) (auto simp: array_sort_def mset_insert_sorted)

lemma set_insert_sorted: "set (insert_sorted cmp x xs) = insert x (set xs)"
  by (induction xs) auto

lemma set_array_sort: "set (array_sort cmp xs) = set xs"
  by (induction xs) (auto simp: array_sort_def set_insert_sorted)

lemma length_array_sort: "length (array_sort cmp xs) = length xs"
  by (metis mset_array_sort size_mset)

lemma sorted_insert_sorted:
  assumes total: "\<And>a b. \<not> cmp a b \<le> 0 \<Longrightarrow> cmp b a \<le> 0"
    and trans: "\<And>a b c. cmp a b \<le> 0 \<Longrightarrow> cmp b c \<le> 0 \<Longrightarrow> cmp a c \<le> 0"
    and "sorted_wrt (\<lambda>a b. cmp a b \<le> 0) xs"
  shows "sorted_wrt (\<lambda>a b. cmp a b \<le> 0) (insert_sorted cmp x xs)"
  using assms(3)
proof (induction xs)
  case Nil
  then show ?case by simp
next
  case (Cons y ys)
  show ?case
  proof (cases "cmp x y \<le> 0")
    case True
    then have "\<forall>z\<in>set ys. cmp x z \<le> 0"
      using Cons.prems trans by auto
    with True Cons.prems show ?thesis by simp
  next
    case False
    then have "cmp y x \<le> 0" by (rule total)
    with False Cons show ?thesis by (auto simp: set_insert_sorted)
  qed
qed

lemma sorted_array_sort:
  assumes total: "\<And>a b. \<not> cmp a b \<le> 0 \<Longrightarrow> cmp b a \<le> 0"
    and trans: "\<And>a b c. cmp a b \<le> 0 \<Longrightarrow> cmp b c \<le> 0 \<Longrightarrow> cmp a c \<le> 0"
  shows "sorted_wrt (\<lambda>a b. cmp a b \<le> 0) (array_sort cmp xs)"
proof (induction xs)
  case Nil
  then show ?case by (simp add: array_sort_def)
next
  case (Cons x xs)
  have "array_sort cmp (x # xs) = insert_sorted cmp x (array_sort cmp xs)"
    by (simp add: array_sort_def)
  with Cons show ?case
    using sorted_insert_sorted [of cmp, OF total trans] by simp
qed

text \<open>
  The sort is stable: the elements that compare as equal to a given one keep their input order.
\<close>

lemma insert_sorted_stable:
  assumes trans: "\<And>a b c. cmp a b \<le> 0 \<Longrightarrow> cmp b c \<le> 0 \<Longrightarrow> cmp a c \<le> 0"
  shows "filter (\<lambda>y. cmp k y \<le> 0 \<and> cmp y k \<le> 0) (insert_sorted cmp x xs) =
           filter (\<lambda>y. cmp k y \<le> 0 \<and> cmp y k \<le> 0) (x # xs)"
proof (induction xs)
  case Nil
  then show ?case by simp
next
  case (Cons y ys)
  show ?case
  proof (cases "cmp x y \<le> 0")
    case True
    then show ?thesis by simp
  next
    case False
    then have "\<not> (cmp x k \<le> 0 \<and> cmp k y \<le> 0)"
      using trans by blast
    with False Cons show ?thesis by auto
  qed
qed

lemma array_sort_stable:
  assumes trans: "\<And>a b c. cmp a b \<le> 0 \<Longrightarrow> cmp b c \<le> 0 \<Longrightarrow> cmp a c \<le> 0"
  shows "filter (\<lambda>y. cmp k y \<le> 0 \<and> cmp y k \<le> 0) (array_sort cmp xs) =
           filter (\<lambda>y. cmp k y \<le> 0 \<and> cmp y k \<le> 0) xs"
proof (induction xs)
  case Nil
  then show ?case by (simp add: array_sort_def)
next
  case (Cons x xs)
  have "array_sort cmp (x # xs) = insert_sorted cmp x (array_sort cmp xs)"
    by (simp add: array_sort_def)
  then show ?case
    using insert_sorted_stable [of cmp k x "array_sort cmp xs", OF trans] Cons by simp
qed

text \<open>Both comparators are consistent: total and transitive.\<close>

lemma compareEmails_total:
  "\<not> compareEmails p ord a b \<le> 0 \<Longrightarrow> compareEmails p ord b a \<le> 0"
  by (auto simp: compareEmails_def Let_def split: if_splits)

lemma compareEmails_trans:
  "compareEmails p ord a b \<le> 0 \<Longrightarrow> compareEmails p ord b c \<le> 0 \<Longrightarrow> compareEmails p ord a c \<le> 0"
  by (auto simp: compareEmails_def Let_def split: if_splits)

lemma compareGroups_total:
  "\<not> compareGroups p ord a b \<le> 0 \<Longrightarrow> compareGroups p ord b a \<le> 0"
  by (auto simp: compareGroups_def Let_def split: if_splits option.splits)

lemma compareGroups_trans:
  "compareGroups p ord a b \<le> 0 \<Longrightarrow> compareGroups p ord b c \<le> 0 \<Longrightarrow> compareGroups p ord a c \<le> 0"
  by (auto simp: compareGroups_def Let_def split: if_splits option.splits)

lemmas ex_simps = example_times_def example_getTime_def mail_def group_of_def example_result_def
  sortedData_def groupsWithSortedEmails_def array_sort_def compareEmails_def compareGroups_def
  firstEmail_def

lemma sortedData_eq_Some_iff:
  "sortedData p ord od = Some r \<longleftrightarrow>
     (\<exists>d. od = Some d \<and> r = array_sort (compareGroups p ord) (groupsWithSortedEmails p ord d))"
  by (auto simp: sortedData_def split: option.splits)

lemma sorted_wrt_nth:
  "sorted_wrt P xs \<Longrightarrow> i < j \<Longrightarrow> j < length xs \<Longrightarrow> P (xs ! i) (xs ! j)"
  by (simp add: sorted_wrt_iff_nth_less)

lemma compareEmails_invalid_valid:
  "p (date a) = None \<Longrightarrow> p (date b) \<noteq> None \<Longrightarrow> compareEmails p ord a b = 1"
  by (auto simp: compareEmails_def)

text \<open>
  C1: after sorting, within each group every email whose date parses to a valid time stands
  before every email whose date is unparsable, for both sort orders: a valid date at index
  \<open>i\<close> and an unparsable one at index \<open>j\<close> of a group of the sorted result have \<open>i < j\<close>.
\<close>

theorem valid_dates_before_unparsable:
  assumes "sortedData getTime sortOrder organizedData = Some result"
    and "g \<in> set result"
    and "i < length (emails g)" and "j < length (emails g)"
    and "getTime (date (emails g ! i)) \<noteq> None"
    and "getTime (date (emails g ! j)) = None"
  shows "i < j"
proof (rule ccontr)
  assume "\<not> i < j"
  moreover have "i \<noteq> j" using assms(5,6) by auto
  ultimately have ji: "j < i" by simp
  obtain d where r: "result = array_sort (compareGroups getTime sortOrder)
      (groupsWithSortedEmails getTime sortOrder d)"
    using assms(1) by (auto simp: sortedData_eq_Some_iff)
  with assms(2) have "g \<in> set (groupsWithSortedEmails getTime sortOrder d)"
    by (simp add: set_array_sort)
  then obtain es where "emails g = array_sort (compareEmails getTime sortOrder) es"
    by (auto simp: groupsWithSortedEmails_def)
  then have "sorted_wrt (\<lambda>a b. compareEmails getTime sortOrder a b \<le> 0) (emails g)"
    using sorted_array_sort [of "compareEmails getTime sortOrder", OF compareEmails_total compareEmails_trans]
    by simp
  from sorted_wrt_nth [OF this ji assms(3)]
  have "compareEmails getTime sortOrder (emails g ! j) (emails g ! i) \<le> 0" .
  with compareEmails_invalid_valid [OF assms(6,5)] show False by simp
qed

theorem valid_dates_before_unparsable_witness:
  "sortedData example_getTime oldest
       (Some [group_of ''a@x.com'' [mail ''E0'' ''no date'', mail ''E1'' ''2024-07-01'']])
     = Some [group_of ''a@x.com'' [mail ''E1'' ''2024-07-01'', mail ''E0'' ''no date'']]
   \<and> example_getTime (date (emails (group_of ''a@x.com'' [mail ''E1'' ''2024-07-01'', mail ''E0'' ''no date'']) ! 0)) \<noteq> None
   \<and> example_getTime (date (emails (group_of ''a@x.com'' [mail ''E1'' ''2024-07-01'', mail ''E0'' ''no date'']) ! 1)) = None
   \<and> (0::nat) < 1"
proof -
  let ?g = "group_of ''a@x.com'' [mail ''E1'' ''2024-07-01'', mail ''E0'' ''no date'']"
  have h1: "sortedData example_getTime oldest
       (Some [group_of ''a@x.com'' [mail ''E0'' ''no date'', mail ''E1'' ''2024-07-01'']])
     = Some [?g]"
    by (simp add: ex_simps)
  have h2: "?g \<in> set [?g]" by simp
  have h3: "0 < length (emails ?g)" and h4: "1 < length (emails ?g)"
    by (simp_all add: group_of_def)
  have h5: "example_getTime (date (emails ?g ! 0)) \<noteq> None"
    by (simp add: ex_simps)
  have h6: "example_getTime (date (emails ?g ! 1)) = None"
    by (simp add: ex_simps)
  have c: "(0::nat) < 1"
    by (rule valid_dates_before_unparsable [OF h1 h2 h3 h4 h5 h6])
  show ?thesis by (intro conjI h1 h5 h6 c)
qed

lemma group_contents_sorted:
  "image_mset group_contents (mset (groupsWithSortedEmails p ord d)) = image_mset group_contents (mset d)"
  by (induction d) (auto simp: groupsWithSortedEmails_def group_contents_def mset_array_sort)

text \<open>
  C6: sorting is a permutation, for both sort orders: the sorted result has as many groups as
  the input, and the same multiset of groups when each group is taken as its sender with the
  multiset of its emails. No email and no group is lost or duplicated.
\<close>

theorem sorting_is_permutation:
  "\<exists>result. sortedData getTime sortOrder (Some organizedData) = Some result
     \<and> length result = length organizedData
     \<and> image_mset group_contents (mset result) = image_mset group_contents (mset organizedData)"
proof -
  let ?r = "array_sort (compareGroups getTime sortOrder)
              (groupsWithSortedEmails getTime sortOrder organizedData)"
  have "sortedData getTime sortOrder (Some organizedData) = Some ?r"
    by (simp add: sortedData_def)
  moreover have "length ?r = length organizedData"
    by (simp add: length_array_sort groupsWithSortedEmails_def)
  moreover have "image_mset group_contents (mset ?r) = image_mset group_contents (mset organizedData)"
    by (simp add: mset_array_sort group_contents_sorted)
  ultimately show ?thesis by blast
qed

text \<open>
  C5: in the sorted result the groups are ordered by the first email each has after the sort
  of its own emails. For a group at index \<open>i\<close> in front of a group at index \<open>j\<close>: both are
  groups with sorted emails; if the first has no emails, neither has the second (groups
  without emails are last); if the first email of the first is unparsable, so is that of the
  second (groups led by an unparsable date follow those led by a valid one); and two valid
  first times are in the chosen order.
\<close>

theorem groups_ordered_by_first_email:
  assumes "sortedData getTime sortOrder (Some organizedData) = Some result"
    and "i < j" and "j < length result"
  shows "result ! i \<in> set (groupsWithSortedEmails getTime sortOrder organizedData)
    \<and> result ! j \<in> set (groupsWithSortedEmails getTime sortOrder organizedData)
    \<and> (firstEmail (result ! i) = None \<longrightarrow> firstEmail (result ! j) = None)
    \<and> (\<forall>a b. firstEmail (result ! i) = Some a \<and> firstEmail (result ! j) = Some b
           \<and> getTime (date a) = None \<longrightarrow> getTime (date b) = None)
    \<and> (\<forall>a b ta tb. firstEmail (result ! i) = Some a \<and> firstEmail (result ! j) = Some b
           \<and> getTime (date a) = Some ta \<and> getTime (date b) = Some tb
           \<longrightarrow> (if sortOrder = newest then tb \<le> ta else ta \<le> tb))"
proof -
  have r: "result = array_sort (compareGroups getTime sortOrder)
      (groupsWithSortedEmails getTime sortOrder organizedData)"
    using assms(1) by (simp add: sortedData_def)
  have "set result = set (groupsWithSortedEmails getTime sortOrder organizedData)"
    by (simp add: r set_array_sort)
  with assms(2,3) have mem: "result ! i \<in> set (groupsWithSortedEmails getTime sortOrder organizedData)"
    "result ! j \<in> set (groupsWithSortedEmails getTime sortOrder organizedData)"
    by (metis nth_mem order.strict_trans)+
  have "sorted_wrt (\<lambda>a b. compareGroups getTime sortOrder a b \<le> 0) result"
    unfolding r
    using sorted_array_sort [of "compareGroups getTime sortOrder", OF compareGroups_total compareGroups_trans]
    by simp
  from sorted_wrt_nth [OF this assms(2,3)]
  have le: "compareGroups getTime sortOrder (result ! i) (result ! j) \<le> 0" .
  have empty_last: "firstEmail (result ! i) = None \<longrightarrow> firstEmail (result ! j) = None"
    using le by (auto simp: compareGroups_def split: option.splits if_splits)
  have invalid_last: "\<forall>a b. firstEmail (result ! i) = Some a \<and> firstEmail (result ! j) = Some b
           \<and> getTime (date a) = None \<longrightarrow> getTime (date b) = None"
    using le by (auto simp: compareGroups_def split: option.splits if_splits)
  have by_time: "\<forall>a b ta tb. firstEmail (result ! i) = Some a \<and> firstEmail (result ! j) = Some b
           \<and> getTime (date a) = Some ta \<and> getTime (date b) = Some tb
           \<longrightarrow> (if sortOrder = newest then tb \<le> ta else ta \<le> tb)"
    using le by (auto simp: compareGroups_def split: option.splits if_splits)
  from mem empty_last invalid_last by_time show ?thesis by blast
qed

theorem groups_ordered_by_first_email_witness:
  "sortedData example_getTime newest (Some example_result) =
     Some [group_of ''a@x.com'' [mail ''E2'' ''2024-07-15'', mail ''E1'' ''2024-07-01''],
           group_of ''b@y.com'' [mail ''E3'' ''2024-07-10'']]
   \<and> firstEmail (group_of ''a@x.com'' [mail ''E2'' ''2024-07-15'', mail ''E1'' ''2024-07-01''])
       = Some (mail ''E2'' ''2024-07-15'')
   \<and> firstEmail (group_of ''b@y.com'' [mail ''E3'' ''2024-07-10'']) = Some (mail ''E3'' ''2024-07-10'')
   \<and> example_getTime (date (mail ''E2'' ''2024-07-15'')) = Some 1721001600000
   \<and> example_getTime (date (mail ''E3'' ''2024-07-10'')) = Some 1720569600000
   \<and> (1720569600000 :: int) \<le> 1721001600000"
proof -
  let ?r = "[group_of ''a@x.com'' [mail ''E2'' ''2024-07-15'', mail ''E1'' ''2024-07-01''],
             group_of ''b@y.com'' [mail ''E3'' ''2024-07-10'']]"
  have h1: "sortedData example_getTime newest (Some example_result) = Some ?r"
    by (simp add: ex_simps)
  have h2: "(0::nat) < 1" by simp
  have h3: "1 < length ?r" by simp
  have fa: "firstEmail (?r ! 0) = Some (mail ''E2'' ''2024-07-15'')"
    by (simp add: firstEmail_def group_of_def)
  have fb: "firstEmail (?r ! 1) = Some (mail ''E3'' ''2024-07-10'')"
    by (simp add: firstEmail_def group_of_def)
  have ta: "example_getTime (date (mail ''E2'' ''2024-07-15'')) = Some 1721001600000"
    by (simp add: example_getTime_def example_times_def mail_def)
  have tb: "example_getTime (date (mail ''E3'' ''2024-07-10'')) = Some 1720569600000"
    by (simp add: example_getTime_def example_times_def mail_def)
  from groups_ordered_by_first_email [OF h1 h2 h3]
  have "\<forall>a b ta tb. firstEmail (?r ! 0) = Some a \<and> firstEmail (?r ! 1) = Some b
           \<and> example_getTime (date a) = Some ta \<and> example_getTime (date b) = Some tb
           \<longrightarrow> (if newest = newest then tb \<le> ta else ta \<le> tb)"
    by blast
  with fa fb ta tb have c: "(1720569600000 :: int) \<le> 1721001600000"
    by (metis (full_types))
  from fa fb have fa': "firstEmail (group_of ''a@x.com'' [mail ''E2'' ''2024-07-15'', mail ''E1'' ''2024-07-01''])
       = Some (mail ''E2'' ''2024-07-15'')"
    and fb': "firstEmail (group_of ''b@y.com'' [mail ''E3'' ''2024-07-10'']) = Some (mail ''E3'' ''2024-07-10'')"
    by simp_all
  show ?thesis by (intro conjI h1 fa' fb' ta tb c)
qed

section \<open>Newest against oldest\<close>

lemma sorted_wrt_unique:
  assumes "sorted_wrt R xs" and "sorted_wrt R ys" and "mset xs = mset ys"
    and antisym: "\<And>a b. a \<in> set xs \<Longrightarrow> b \<in> set xs \<Longrightarrow> R a b \<Longrightarrow> R b a \<Longrightarrow> a = b"
  shows "xs = ys"
  using assms
proof (induction xs arbitrary: ys)
  case Nil
  then show ?case by simp
next
  case (Cons x xs)
  from Cons.prems(3) obtain y ys' where ys: "ys = y # ys'"
    by (cases ys) auto
  have xy: "x = y"
  proof (rule ccontr)
    assume neq: "x \<noteq> y"
    have "x \<in># mset ys" using Cons.prems(3) by (metis list.set_intros(1) set_mset_mset)
    with neq ys have "x \<in> set ys'" by auto
    with Cons.prems(2) ys have yx: "R y x" by auto
    have "y \<in># mset (x # xs)" using Cons.prems(3) ys by (metis list.set_intros(1) set_mset_mset)
    with neq have yin: "y \<in> set xs" by auto
    with Cons.prems(1) have "R x y" by auto
    from Cons.prems(4) [OF _ _ this yx] yin neq show False by auto
  qed
  with Cons.prems(3) ys have "mset xs = mset ys'" by simp
  moreover have "sorted_wrt R xs" "sorted_wrt R ys'"
    using Cons.prems(1,2) ys by auto
  ultimately have "xs = ys'"
    using Cons.IH [of ys'] Cons.prems(4) by auto
  with xy ys show ?case by simp
qed

lemma compareEmails_flip:
  "p (date a) \<noteq> None \<Longrightarrow> p (date b) \<noteq> None \<Longrightarrow>
     compareEmails p newest a b = compareEmails p oldest b a"
  by (auto simp: compareEmails_def)

lemma compareEmails_antisym:
  "p (date a) \<noteq> None \<Longrightarrow> p (date b) \<noteq> None \<Longrightarrow>
   compareEmails p ord a b \<le> 0 \<Longrightarrow> compareEmails p ord b a \<le> 0 \<Longrightarrow> p (date a) = p (date b)"
  by (auto simp: compareEmails_def Let_def split: if_splits)

lemma sorted_emails_array_sort:
  "sorted_wrt (\<lambda>a b. compareEmails p ord a b \<le> 0) (array_sort (compareEmails p ord) es)"
  using sorted_array_sort [of "compareEmails p ord", OF compareEmails_total compareEmails_trans]
  by simp

lemma oldest_is_rev_newest:
  assumes valid: "\<forall>e\<in>set es. p (date e) \<noteq> None"
    and dist: "distinct (map (\<lambda>e. p (date e)) es)"
  shows "array_sort (compareEmails p oldest) es = rev (array_sort (compareEmails p newest) es)"
proof (rule sorted_wrt_unique [where R = "\<lambda>a b. compareEmails p oldest a b \<le> 0"])
  show "sorted_wrt (\<lambda>a b. compareEmails p oldest a b \<le> 0) (array_sort (compareEmails p oldest) es)"
    by (rule sorted_emails_array_sort)
  have "sorted_wrt (\<lambda>a b. compareEmails p newest a b \<le> 0) (array_sort (compareEmails p newest) es)"
    by (rule sorted_emails_array_sort)
  then have "sorted_wrt (\<lambda>a b. compareEmails p oldest b a \<le> 0) (array_sort (compareEmails p newest) es)"
  proof (rule sorted_wrt_mono_rel [rotated])
    fix a b
    assume "a \<in> set (array_sort (compareEmails p newest) es)"
      "b \<in> set (array_sort (compareEmails p newest) es)"
      "compareEmails p newest a b \<le> 0"
    then show "compareEmails p oldest b a \<le> 0"
      using valid compareEmails_flip [of p a b] by (simp add: set_array_sort)
  qed
  then show "sorted_wrt (\<lambda>a b. compareEmails p oldest a b \<le> 0)
      (rev (array_sort (compareEmails p newest) es))"
    by (simp add: sorted_wrt_rev)
  show "mset (array_sort (compareEmails p oldest) es) = mset (rev (array_sort (compareEmails p newest) es))"
    by (simp add: mset_array_sort)
next
  fix a b
  assume a: "a \<in> set (array_sort (compareEmails p oldest) es)"
    and b: "b \<in> set (array_sort (compareEmails p oldest) es)"
    and "compareEmails p oldest a b \<le> 0" "compareEmails p oldest b a \<le> 0"
  then have "p (date a) = p (date b)"
    using valid compareEmails_antisym [of p a b oldest] by (simp add: set_array_sort)
  moreover have "inj_on (\<lambda>e. p (date e)) (set es)"
    using dist by (simp add: distinct_map)
  ultimately show "a = b"
    using a b by (auto simp: set_array_sort dest: inj_onD)
qed

lemma groupsWithSortedEmails_reverse:
  assumes "all_dates_valid p groups" and "times_distinct_within_groups p groups"
  shows "groupsWithSortedEmails p oldest groups =
           map reverse_emails (groupsWithSortedEmails p newest groups)"
  using assms
  by (auto simp: groupsWithSortedEmails_def reverse_emails_def all_dates_valid_def
      times_distinct_within_groups_def oldest_is_rev_newest)

lemma set_valid_times:
  "set (valid_times p g) = {t. \<exists>e\<in>set (emails g). p (date e) = Some t}"
  by (force simp: valid_times_def List.map_filter_def image_iff)

lemma compareEmails_refl: "compareEmails p ord e e = 0"
  by (auto simp: compareEmails_def Let_def)

lemma array_sort_first:
  assumes "es \<noteq> []"
  obtains e rest where "array_sort (compareEmails p ord) es = e # rest"
    and "e \<in> set es" and "\<forall>x\<in>set es. compareEmails p ord e x \<le> 0"
proof -
  have "length (array_sort (compareEmails p ord) es) = length es"
    by (rule length_array_sort)
  with assms obtain e rest where er: "array_sort (compareEmails p ord) es = e # rest"
    by (cases "array_sort (compareEmails p ord) es") auto
  have sets: "set es = insert e (set rest)"
    using er set_array_sort [of "compareEmails p ord" es] by simp
  have "sorted_wrt (\<lambda>a b. compareEmails p ord a b \<le> 0) (e # rest)"
    using sorted_emails_array_sort [of p ord es] er by simp
  then have "\<forall>x\<in>set rest. compareEmails p ord e x \<le> 0" by simp
  then have "\<forall>x\<in>set es. compareEmails p ord e x \<le> 0"
    using compareEmails_refl [of p ord e] by (simp add: sets)
  moreover have "e \<in> set es" by (simp add: sets)
  ultimately have "e \<in> set es" "\<forall>x\<in>set es. compareEmails p ord e x \<le> 0" by blast+
  with er that show ?thesis by blast
qed

lemma firstEmail_sorted:
  assumes "emails g \<noteq> []" and valid: "\<forall>e\<in>set (emails g). p (date e) \<noteq> None"
  shows "\<exists>e. firstEmail (g\<lparr>emails := array_sort (compareEmails p ord) (emails g)\<rparr>) = Some e
           \<and> p (date e) = Some (if ord = newest then newest_time p g else oldest_time p g)"
proof -
  obtain e rest where er: "array_sort (compareEmails p ord) (emails g) = e # rest"
    and e: "e \<in> set (emails g)"
    and le: "\<forall>x\<in>set (emails g). compareEmails p ord e x \<le> 0"
    using array_sort_first [OF assms(1)] by blast
  from e valid obtain t where t: "p (date e) = Some t" by auto
  have fin: "finite (set (valid_times p g))" by simp
  have mem: "t \<in> set (valid_times p g)"
    using e t by (auto simp: set_valid_times)
  have "t = (if ord = newest then newest_time p g else oldest_time p g)"
  proof (cases "ord = newest")
    case True
    have "\<forall>u\<in>set (valid_times p g). u \<le> t"
    proof
      fix u assume "u \<in> set (valid_times p g)"
      then obtain x where "x \<in> set (emails g)" "p (date x) = Some u"
        by (auto simp: set_valid_times)
      with le t True show "u \<le> t"
        by (auto simp: compareEmails_def Let_def split: if_splits)
    qed
    with fin mem have "Max (set (valid_times p g)) = t"
      by (intro Max_eqI) auto
    with True show ?thesis by (simp add: newest_time_def)
  next
    case False
    have "\<forall>u\<in>set (valid_times p g). t \<le> u"
    proof
      fix u assume "u \<in> set (valid_times p g)"
      then obtain x where "x \<in> set (emails g)" "p (date x) = Some u"
        by (auto simp: set_valid_times)
      with le t False show "t \<le> u"
        by (auto simp: compareEmails_def Let_def split: if_splits)
    qed
    with fin mem have "Min (set (valid_times p g)) = t"
      by (intro Min_eqI) auto
    with False show ?thesis by (simp add: oldest_time_def)
  qed
  with er t show ?thesis by (simp add: firstEmail_def)
qed

lemma compareGroups_sorted:
  assumes "emails g \<noteq> []" "\<forall>e\<in>set (emails g). p (date e) \<noteq> None"
    and "emails h \<noteq> []" "\<forall>e\<in>set (emails h). p (date e) \<noteq> None"
  shows "compareGroups p ord (g\<lparr>emails := array_sort (compareEmails p ord) (emails g)\<rparr>)
           (h\<lparr>emails := array_sort (compareEmails p ord) (emails h)\<rparr>)
         = (if ord = newest then newest_time p h - newest_time p g
            else oldest_time p g - oldest_time p h)"
proof -
  obtain a where a: "firstEmail (g\<lparr>emails := array_sort (compareEmails p ord) (emails g)\<rparr>) = Some a"
    "p (date a) = Some (if ord = newest then newest_time p g else oldest_time p g)"
    using firstEmail_sorted [OF assms(1,2)] by blast
  obtain b where b: "firstEmail (h\<lparr>emails := array_sort (compareEmails p ord) (emails h)\<rparr>) = Some b"
    "p (date b) = Some (if ord = newest then newest_time p h else oldest_time p h)"
    using firstEmail_sorted [OF assms(3,4)] by blast
  show ?thesis
    by (simp add: compareGroups_def a b)
qed

lemma sorted_groups_array_sort:
  "sorted_wrt (\<lambda>a b. compareGroups p ord a b \<le> 0) (array_sort (compareGroups p ord) gs)"
  using sorted_array_sort [of "compareGroups p ord", OF compareGroups_total compareGroups_trans]
  by simp

lemma compareGroups_refl: "compareGroups p ord g g = 0"
  by (auto simp: compareGroups_def Let_def split: option.splits)

lemma sorted_groups_member:
  "a \<in> set (groupsWithSortedEmails p ord groups) \<longleftrightarrow>
     (\<exists>g\<in>set groups. a = g\<lparr>emails := array_sort (compareEmails p ord) (emails g)\<rparr>)"
  by (auto simp: groupsWithSortedEmails_def)

lemma reverse_sorted_group:
  assumes "\<forall>e\<in>set (emails g). p (date e) \<noteq> None"
    and "distinct (map (\<lambda>e. p (date e)) (emails g))"
  shows "reverse_emails (g\<lparr>emails := array_sort (compareEmails p newest) (emails g)\<rparr>)
         = g\<lparr>emails := array_sort (compareEmails p oldest) (emails g)\<rparr>"
  using oldest_is_rev_newest [OF assms] by (simp add: reverse_emails_def)

lemma groups_reverse:
  assumes valid: "all_dates_valid p groups"
    and dist: "times_distinct_within_groups p groups"
    and nonempty: "no_empty_group groups"
    and strict: "groups_strictly_ordered p groups"
  shows "array_sort (compareGroups p oldest) (groupsWithSortedEmails p oldest groups)
         = reversed_result (array_sort (compareGroups p newest) (groupsWithSortedEmails p newest groups))"
  unfolding reversed_result_def
proof (rule sorted_wrt_unique [where R = "\<lambda>a b. compareGroups p oldest a b \<le> 0"])
  let ?S = "\<lambda>ord g. g\<lparr>emails := array_sort (compareEmails p ord) (emails g)\<rparr>"
  let ?new = "groupsWithSortedEmails p newest groups"
  let ?old = "groupsWithSortedEmails p oldest groups"
  let ?zs = "array_sort (compareGroups p newest) ?new"
  have ok: "\<And>g. g \<in> set groups \<Longrightarrow>
      emails g \<noteq> [] \<and> (\<forall>e\<in>set (emails g). p (date e) \<noteq> None)
      \<and> distinct (map (\<lambda>e. p (date e)) (emails g))"
    using valid dist nonempty
    by (auto simp: all_dates_valid_def times_distinct_within_groups_def no_empty_group_def)
  have cmp: "\<And>ord g h. g \<in> set groups \<Longrightarrow> h \<in> set groups \<Longrightarrow>
      compareGroups p ord (?S ord g) (?S ord h)
        = (if ord = newest then newest_time p h - newest_time p g
           else oldest_time p g - oldest_time p h)"
    using ok by (intro compareGroups_sorted) auto
  have old_new: "?old = map reverse_emails ?new"
    by (rule groupsWithSortedEmails_reverse [OF valid dist])
  show "sorted_wrt (\<lambda>a b. compareGroups p oldest a b \<le> 0) (array_sort (compareGroups p oldest) ?old)"
    by (rule sorted_groups_array_sort)
  have "sorted_wrt (\<lambda>a b. compareGroups p newest a b \<le> 0) ?zs"
    by (rule sorted_groups_array_sort)
  then have "sorted_wrt (\<lambda>a b. compareGroups p oldest (reverse_emails b) (reverse_emails a) \<le> 0) ?zs"
  proof (rule sorted_wrt_mono_rel [rotated])
    fix a b
    assume "a \<in> set ?zs" "b \<in> set ?zs" and le: "compareGroups p newest a b \<le> 0"
    then obtain g h where g: "g \<in> set groups" "a = ?S newest g"
      and h: "h \<in> set groups" "b = ?S newest h"
      by (auto simp: set_array_sort sorted_groups_member)
    have ra: "reverse_emails a = ?S oldest g"
      using g ok reverse_sorted_group [of g p] by simp
    have rb: "reverse_emails b = ?S oldest h"
      using h ok reverse_sorted_group [of h p] by simp
    show "compareGroups p oldest (reverse_emails b) (reverse_emails a) \<le> 0"
    proof (cases "g = h")
      case True
      with ra rb show ?thesis by (simp add: compareGroups_refl)
    next
      case False
      from le g h have "newest_time p h \<le> newest_time p g"
        using cmp [of g h newest] by simp
      with False strict g(1) h(1) have "oldest_time p h < oldest_time p g"
        unfolding groups_strictly_ordered_def by fastforce
      then show ?thesis
        using cmp [of h g oldest] g(1) h(1) ra rb by simp
    qed
  qed
  then show "sorted_wrt (\<lambda>a b. compareGroups p oldest a b \<le> 0) (rev (map reverse_emails ?zs))"
    by (simp add: sorted_wrt_rev sorted_wrt_map)
  show "mset (array_sort (compareGroups p oldest) ?old) = mset (rev (map reverse_emails ?zs))"
    by (simp add: mset_array_sort old_new)
  fix a b
  assume "a \<in> set (array_sort (compareGroups p oldest) ?old)"
    "b \<in> set (array_sort (compareGroups p oldest) ?old)"
    and ab: "compareGroups p oldest a b \<le> 0" and ba: "compareGroups p oldest b a \<le> 0"
  then obtain g h where g: "g \<in> set groups" "a = ?S oldest g"
    and h: "h \<in> set groups" "b = ?S oldest h"
    by (auto simp: set_array_sort sorted_groups_member)
  have "oldest_time p g = oldest_time p h"
    using ab ba cmp [of g h oldest] cmp [of h g oldest] g h by simp
  with strict g(1) h(1) have "g = h"
    unfolding groups_strictly_ordered_def by fastforce
  with g h show "a = b" by simp
qed

text \<open>
  C3, amended: when every date is valid and no two emails of one group have the same time,
  the emails of each group under \<open>oldest\<close> are the exact reverse of those under \<open>newest\<close>.
  The whole result under \<open>oldest\<close> is the result under \<open>newest\<close> read backwards when, in
  addition, no group is empty and, of any two different groups, one has both its newest and
  its oldest email strictly later than the other has.
\<close>

theorem newest_then_oldest_reverses:
  assumes "all_dates_valid getTime groups"
    and "times_distinct_within_groups getTime groups"
  shows "groupsWithSortedEmails getTime oldest groups =
           map reverse_emails (groupsWithSortedEmails getTime newest groups)
    \<and> (no_empty_group groups \<and> groups_strictly_ordered getTime groups \<longrightarrow>
          sortedData getTime oldest (Some groups) =
            map_option reversed_result (sortedData getTime newest (Some groups)))"
  using groupsWithSortedEmails_reverse [OF assms] groups_reverse [OF assms]
  by (simp add: sortedData_def)

text \<open>
  C3 as stated fails. In the end-to-end scenario all dates are valid, and the group of
  \<open>a@x.com\<close> is first under both orders: its newest email is the newest overall and its
  oldest email the oldest overall. And two emails of one group with the same time keep their
  input order under both orders.
\<close>

theorem newest_then_oldest_reverses_counterexample:
  "all_dates_valid example_getTime example_result
   \<and> sortedData example_getTime oldest (Some example_result) \<noteq>
       map_option reversed_result (sortedData example_getTime newest (Some example_result))
   \<and> sortedData example_getTime oldest (sortedData example_getTime newest (Some example_result)) \<noteq>
       map_option reversed_result (sortedData example_getTime newest (Some example_result))
   \<and> all_dates_valid example_getTime example_tied
   \<and> sortedData example_getTime oldest (Some example_tied) \<noteq>
       map_option reversed_result (sortedData example_getTime newest (Some example_tied))"
  by (simp add: ex_simps all_dates_valid_def reversed_result_def reverse_emails_def example_tied_def)

theorem newest_then_oldest_reverses_witness:
  "all_dates_valid example_getTime example_separate
   \<and> times_distinct_within_groups example_getTime example_separate
   \<and> no_empty_group example_separate
   \<and> groups_strictly_ordered example_getTime example_separate
   \<and> sortedData example_getTime oldest (Some example_separate) =
       map_option reversed_result (sortedData example_getTime newest (Some example_separate))"
proof -
  have h1: "all_dates_valid example_getTime example_separate"
    by (simp add: all_dates_valid_def example_separate_def ex_simps)
  have h2: "times_distinct_within_groups example_getTime example_separate"
    by (simp add: times_distinct_within_groups_def example_separate_def ex_simps)
  have h3: "no_empty_group example_separate"
    by (simp add: no_empty_group_def example_separate_def ex_simps)
  have h4: "groups_strictly_ordered example_getTime example_separate"
    by (simp add: groups_strictly_ordered_def example_separate_def ex_simps
        newest_time_def oldest_time_def valid_times_def map_filter_simps)
  have c: "sortedData example_getTime oldest (Some example_separate) =
       map_option reversed_result (sortedData example_getTime newest (Some example_separate))"
    using newest_then_oldest_reverses [OF h1 h2] h3 h4 by blast
  show ?thesis by (intro conjI h1 h2 h3 h4 c)
qed

section \<open>Deleting an email\<close>

lemma array_filter_snoc:
  "array_filter p (xs @ [x]) = array_filter p xs @ (if p x (length xs) then [x] else [])"
  by (simp add: array_filter_def)

lemma array_filter_index:
  "array_filter (\<lambda>_ index. int index \<noteq> k) xs =
     (if 0 \<le> k \<and> k < int (length xs) then remove_at (nat k) xs else xs)"
proof (induction xs rule: rev_induct)
  case Nil
  then show ?case by (auto simp: array_filter_def)
next
  case (snoc x xs)
  show ?case
  proof (cases "0 \<le> k \<and> k < int (length xs)")
    case True
    then have "nat k < length xs" by linarith
    with True snoc show ?thesis
      by (simp add: array_filter_snoc remove_at_def)
  next
    case False
    with snoc have keep: "array_filter (\<lambda>_ index. int index \<noteq> k) xs = xs" by simp
    show ?thesis
    proof (cases "k = int (length xs)")
      case True
      with keep show ?thesis by (simp add: array_filter_snoc remove_at_def)
    next
      case False
      with \<open>\<not> (0 \<le> k \<and> k < int (length xs))\<close> keep show ?thesis
        by (auto simp: array_filter_snoc)
    qed
  qed
qed

lemma length_remove_at: "n < length xs \<Longrightarrow> Suc (length (remove_at n xs)) = length xs"
  by (auto simp: remove_at_def)

lemma handleDeleteEmail_Some:
  "handleDeleteEmail (Some groups) sender k =
     Some (filter (\<lambda>g. emails g \<noteq> [])
             (map (\<lambda>g. if senderEmail g = sender
                        then g\<lparr>emails := (if 0 \<le> k \<and> k < int (length (emails g))
                                           then remove_at (nat k) (emails g) else emails g)\<rparr>
                        else g) groups))"
  by (simp add: handleDeleteEmail_def array_filter_index cong: if_cong)

lemma handleDeleteEmail_nonempty:
  "handleDeleteEmail current sender k = Some r \<Longrightarrow> g \<in> set r \<Longrightarrow> emails g \<noteq> []"
  by (auto simp: handleDeleteEmail_def split: option.splits)

lemma sortedData_nonempty:
  assumes "sortedData p ord current = Some shown" and "g \<in> set shown"
  shows "\<exists>g0. current \<noteq> None \<and> g0 \<in> set (the current) \<and> mset (emails g) = mset (emails g0)"
proof -
  obtain d where d: "current = Some d"
    and "shown = array_sort (compareGroups p ord) (groupsWithSortedEmails p ord d)"
    using assms(1) by (auto simp: sortedData_eq_Some_iff)
  with assms(2) have "g \<in> set (groupsWithSortedEmails p ord d)"
    by (simp add: set_array_sort)
  then show ?thesis
    using d by (auto simp: groupsWithSortedEmails_def mset_array_sort)
qed

text \<open>
  C2: when the index is in range for every group whose \<open>senderEmail\<close> equals the given one,
  Delete removes the email at that index from each of these groups, which makes each of them
  one email shorter, and drops the groups without emails; no group without emails is in the
  displayed (sorted) result, so a group whose last email was deleted is not shown.
\<close>

theorem delete_removes_email_and_empty_groups:
  assumes "\<forall>g\<in>set groups. senderEmail g = sender \<longrightarrow>
             0 \<le> emailIndex \<and> emailIndex < int (length (emails g))"
  shows "handleDeleteEmail (Some groups) sender emailIndex =
           Some (filter (\<lambda>g. emails g \<noteq> [])
                   (map (\<lambda>g. if senderEmail g = sender
                              then g\<lparr>emails := remove_at (nat emailIndex) (emails g)\<rparr>
                              else g) groups))
    \<and> (\<forall>g\<in>set groups. senderEmail g = sender \<longrightarrow>
          Suc (length (remove_at (nat emailIndex) (emails g))) = length (emails g))
    \<and> (\<forall>getTime sortOrder shown.
          sortedData getTime sortOrder (handleDeleteEmail (Some groups) sender emailIndex) = Some shown
          \<longrightarrow> (\<forall>g\<in>set shown. emails g \<noteq> []))"
proof (intro conjI)
  have "map (\<lambda>g. if senderEmail g = sender
                        then g\<lparr>emails := (if 0 \<le> emailIndex \<and> emailIndex < int (length (emails g))
                                           then remove_at (nat emailIndex) (emails g) else emails g)\<rparr>
                        else g) groups
      = map (\<lambda>g. if senderEmail g = sender
                              then g\<lparr>emails := remove_at (nat emailIndex) (emails g)\<rparr>
                              else g) groups"
    using assms by (intro map_cong) auto
  then show "handleDeleteEmail (Some groups) sender emailIndex =
           Some (filter (\<lambda>g. emails g \<noteq> [])
                   (map (\<lambda>g. if senderEmail g = sender
                              then g\<lparr>emails := remove_at (nat emailIndex) (emails g)\<rparr>
                              else g) groups))"
    by (simp only: handleDeleteEmail_Some)
  show "\<forall>g\<in>set groups. senderEmail g = sender \<longrightarrow>
          Suc (length (remove_at (nat emailIndex) (emails g))) = length (emails g)"
  proof (intro ballI impI)
    fix g assume "g \<in> set groups" "senderEmail g = sender"
    with assms have "nat emailIndex < length (emails g)" by auto
    then show "Suc (length (remove_at (nat emailIndex) (emails g))) = length (emails g)"
      by (rule length_remove_at)
  qed
  show "\<forall>getTime sortOrder shown.
          sortedData getTime sortOrder (handleDeleteEmail (Some groups) sender emailIndex) = Some shown
          \<longrightarrow> (\<forall>g\<in>set shown. emails g \<noteq> [])"
  proof (intro allI impI ballI)
    fix getTime sortOrder shown g
    assume s: "sortedData getTime sortOrder (handleDeleteEmail (Some groups) sender emailIndex) = Some shown"
      and g: "g \<in> set shown"
    from sortedData_nonempty [OF s g] obtain g0 where
      "handleDeleteEmail (Some groups) sender emailIndex \<noteq> None"
      "g0 \<in> set (the (handleDeleteEmail (Some groups) sender emailIndex))"
      "mset (emails g) = mset (emails g0)" by blast
    moreover from this have "emails g0 \<noteq> []"
      using handleDeleteEmail_nonempty [of "Some groups" sender emailIndex _ g0] by auto
    ultimately show "emails g \<noteq> []" by auto
  qed
qed

theorem delete_removes_email_and_empty_groups_witness:
  "handleDeleteEmail
     (Some [group_of ''a@x.com'' [mail ''E1'' ''2024-07-01''],
            group_of ''b@y.com'' [mail ''E3'' ''2024-07-10'', mail ''E4'' ''2024-07-15'']])
     ''a@x.com'' 0
   = Some [group_of ''b@y.com'' [mail ''E3'' ''2024-07-10'', mail ''E4'' ''2024-07-15'']]"
proof -
  let ?groups = "[group_of ''a@x.com'' [mail ''E1'' ''2024-07-01''],
              group_of ''b@y.com'' [mail ''E3'' ''2024-07-10'', mail ''E4'' ''2024-07-15'']]"
  have h: "\<forall>g\<in>set ?groups. senderEmail g = ''a@x.com'' \<longrightarrow>
      (0::int) \<le> 0 \<and> 0 < int (length (emails g))"
    by (simp add: group_of_def)
  have c: "handleDeleteEmail (Some ?groups) ''a@x.com'' 0
      = Some [group_of ''b@y.com'' [mail ''E3'' ''2024-07-10'', mail ''E4'' ''2024-07-15'']]"
    using delete_removes_email_and_empty_groups [OF h]
    by (simp add: group_of_def remove_at_def)
  show ?thesis by (rule c)
qed

text \<open>
  C7, amended: Delete with a \<open>senderEmail\<close> that no group has returns the groups that have at
  least one email, unchanged and in order; it returns the result unchanged when no group is
  empty.
\<close>

theorem delete_absent_sender:
  assumes "\<forall>g\<in>set groups. senderEmail g \<noteq> sender"
  shows "handleDeleteEmail (Some groups) sender emailIndex = Some (filter (\<lambda>g. emails g \<noteq> []) groups)
    \<and> ((\<forall>g\<in>set groups. emails g \<noteq> []) \<longrightarrow>
          handleDeleteEmail (Some groups) sender emailIndex = Some groups)"
proof -
  have "map (\<lambda>g. if senderEmail g = sender
                  then g\<lparr>emails := array_filter (\<lambda>_ index. int index \<noteq> emailIndex) (emails g)\<rparr>
                  else g) groups = groups"
    using assms by (induction groups) auto
  then have "handleDeleteEmail (Some groups) sender emailIndex = Some (filter (\<lambda>g. emails g \<noteq> []) groups)"
    by (simp add: handleDeleteEmail_def)
  then show ?thesis by (auto simp: filter_id_conv)
qed

theorem delete_absent_sender_witness:
  "handleDeleteEmail (Some example_result) ''c@z.com'' 0 = Some example_result"
proof -
  have h: "\<forall>g\<in>set example_result. senderEmail g \<noteq> ''c@z.com''"
    by (simp add: example_result_def group_of_def)
  have n: "\<forall>g\<in>set example_result. emails g \<noteq> []"
    by (simp add: example_result_def group_of_def)
  have c: "handleDeleteEmail (Some example_result) ''c@z.com'' 0 = Some example_result"
    using delete_absent_sender [OF h] n by blast
  show ?thesis by (rule c)
qed

text \<open>
  C7 as stated fails: a group without emails, as an extraction result may hold, is dropped by
  a Delete for a sender that matches no group.
\<close>

theorem delete_absent_sender_counterexample:
  "senderEmail (group_of ''a@x.com'' []) \<noteq> ''b@y.com''
   \<and> handleDeleteEmail (Some [group_of ''a@x.com'' []]) ''b@y.com'' 0 = Some []"
  by (simp add: handleDeleteEmail_def group_of_def)

lemma handleDeleteEmail_append:
  "handleDeleteEmail (Some (xs @ ys)) sender k =
     Some (the (handleDeleteEmail (Some xs) sender k) @ the (handleDeleteEmail (Some ys) sender k))"
  by (simp add: handleDeleteEmail_def)

text \<open>
  C10, amended: Delete returns a value for every input, and with an index that is at least the
  number of emails of a matching group, that group stays in its place with its emails
  unchanged if it has at least one email; a matching group with no emails is dropped.
\<close>

theorem delete_index_out_of_range:
  assumes "senderEmail g = sender" and "int (length (emails g)) \<le> emailIndex"
  shows "\<exists>before after.
           handleDeleteEmail (Some pre) sender emailIndex = Some before
         \<and> handleDeleteEmail (Some post) sender emailIndex = Some after
         \<and> handleDeleteEmail (Some (pre @ g # post)) sender emailIndex =
             Some (before @ (if emails g = [] then [] else [g]) @ after)"
proof -
  have "array_filter (\<lambda>_ index. int index \<noteq> emailIndex) (emails g) = emails g"
    using assms(2) by (simp add: array_filter_index)
  then have "handleDeleteEmail (Some [g]) sender emailIndex = Some (if emails g = [] then [] else [g])"
    using assms(1) by (simp add: handleDeleteEmail_def)
  then show ?thesis
    using handleDeleteEmail_append [of pre "g # post" sender emailIndex]
      handleDeleteEmail_append [of "[g]" post sender emailIndex]
    by (simp add: handleDeleteEmail_def)
qed

theorem delete_index_out_of_range_witness:
  "senderEmail (group_of ''b@y.com'' [mail ''E3'' ''2024-07-10'']) = ''b@y.com''
   \<and> int (length (emails (group_of ''b@y.com'' [mail ''E3'' ''2024-07-10'']))) \<le> 1
   \<and> handleDeleteEmail
        (Some ([] @ group_of ''b@y.com'' [mail ''E3'' ''2024-07-10''] # [])) ''b@y.com'' 1
      = Some [group_of ''b@y.com'' [mail ''E3'' ''2024-07-10'']]"
proof -
  let ?g = "group_of ''b@y.com'' [mail ''E3'' ''2024-07-10'']"
  have h1: "senderEmail ?g = ''b@y.com''" by (simp add: group_of_def)
  have h2: "int (length (emails ?g)) \<le> 1" by (simp add: group_of_def)
  have e: "handleDeleteEmail (Some []) ''b@y.com'' 1 = Some []"
    by (simp add: handleDeleteEmail_def)
  have ne: "emails ?g \<noteq> []" by (simp add: group_of_def)
  have c: "handleDeleteEmail (Some ([] @ ?g # [])) ''b@y.com'' 1 = Some [?g]"
    using delete_index_out_of_range [OF h1 h2, of "[]" "[]"] e ne by auto
  show ?thesis by (intro conjI h1 h2 c)
qed

text \<open>
  C10 as stated fails: every index is out of range for a matching group without emails, and
  Delete does not return that group.
\<close>

theorem delete_index_out_of_range_counterexample:
  "senderEmail (group_of ''a@x.com'' []) = ''a@x.com''
   \<and> int (length (emails (group_of ''a@x.com'' []))) \<le> 0
   \<and> handleDeleteEmail (Some [group_of ''a@x.com'' []]) ''a@x.com'' 0 = Some []"
  by (simp add: handleDeleteEmail_def group_of_def array_filter_def)

section \<open>The extraction contract\<close>







lemma getAiClient_available:
  "ai st \<noteq> None \<or> (API_KEY \<noteq> None \<and> API_KEY \<noteq> Some []) \<Longrightarrow>
     \<exists>client st1. getAiClient API_KEY st = (Inr client, st1)"
  by (auto simp: getAiClient_def split: option.splits)

lemma getAiClient_unavailable:
  "\<not> (ai st \<noteq> None \<or> (API_KEY \<noteq> None \<and> API_KEY \<noteq> Some [])) \<Longrightarrow>
     getAiClient API_KEY st = (Inl (ErrorObject configuration_message), st)"
  by (auto simp: getAiClient_def split: option.splits)

lemma unexpected_format_no_prefix:
  "\<not> startsWith unexpected_format_message ''AI Service Error:''"
  by (simp add: startsWith_def unexpected_format_message_def)

lemma organizeEmails_catch_generic:
  "(\<forall>m. e = ErrorObject m \<longrightarrow> \<not> startsWith m ''AI Service Error:'') \<Longrightarrow>
     organizeEmails_catch e = ErrorObject generic_message"
  by (cases e) (auto simp: organizeEmails_catch_def)

lemma foreign_message_no_prefix:
  "\<not> startsWith (Rep_foreign_message m) ''AI Service Error:''"
  using Rep_foreign_message [of m] by simp

lemma organizeEmails_catch_foreign:
  "organizeEmails_catch (thrown_of e) = ErrorObject generic_message"
  by (cases e)
    (simp_all add: thrown_of_def organizeEmails_catch_def foreign_message_no_prefix)

text \<open>
  C9: when the external call is made, which is when a client is available, the call fails with
  the one generic message in all three cases: the external call rejects, the response text
  does not parse as JSON, the response text parses to a value that is not an array. The
  result is an error and no array, so nothing partial is returned.
\<close>

theorem runtime_failures_share_generic_message:
  assumes "ai st \<noteq> None \<or> (API_KEY \<noteq> None \<and> API_KEY \<noteq> Some [])"
    and "(\<exists>e. outcome = Rejects e)
       \<or> (\<exists>text m. outcome = Resolves text \<and> JSON_parse (trim text) = Inl m)
       \<or> (\<exists>text v. outcome = Resolves text \<and> JSON_parse (trim text) = Inr v
             \<and> (\<forall>elements. v \<noteq> JArray elements))"
  shows "fst (organizeEmails API_KEY JSON_parse outcome st emailContent)
         = Inl (ErrorObject generic_message)"
proof -
  obtain client st1 where c: "getAiClient API_KEY st = (Inr client, st1)"
    using getAiClient_available [OF assms(1)] by blast
  from assms(2) consider
    (rejects) e where "outcome = Rejects e"
    | (unparsable) body m where "outcome = Resolves body" "JSON_parse (trim body) = Inl m"
    | (not_array) body v where "outcome = Resolves body" "JSON_parse (trim body) = Inr v"
      "\<forall>elements. v \<noteq> JArray elements"
    by blast
  then show ?thesis
  proof cases
    case rejects
    then show ?thesis
      by (simp add: organizeEmails_def organizeEmails_try_def c Let_def
          organizeEmails_catch_foreign)
  next
    case unparsable
    then show ?thesis
      by (simp add: organizeEmails_def organizeEmails_try_def c Let_def
          organizeEmails_catch_generic foreign_message_no_prefix)
  next
    case not_array
    then show ?thesis
      by (cases v)
        (simp_all add: organizeEmails_def organizeEmails_try_def c Let_def
          organizeEmails_catch_generic unexpected_format_no_prefix)
  qed
qed

theorem runtime_failures_share_generic_message_witness:
  "fst (organizeEmails (Some ''key'') example_JSON_parse
          (Rejects (ForeignError (Abs_foreign_message ''fetch failed'')))
          initial_state ''hello'') = Inl (ErrorObject generic_message)
   \<and> fst (organizeEmails (Some ''key'') example_JSON_parse (Resolves '''')
          initial_state ''hello'') = Inl (ErrorObject generic_message)
   \<and> fst (organizeEmails (Some ''key'') example_JSON_parse (Resolves ''{}'')
          initial_state ''hello'') = Inl (ErrorObject generic_message)"
proof -
  have client: "ai initial_state \<noteq> None \<or> (Some ''key'' \<noteq> None \<and> Some ''key'' \<noteq> Some [])"
    by simp
  have rejected:
    "(\<exists>e. Rejects (ForeignError (Abs_foreign_message ''fetch failed'')) = Rejects e)
       \<or> (\<exists>text m. Rejects (ForeignError (Abs_foreign_message ''fetch failed'')) = Resolves text
             \<and> example_JSON_parse (trim text) = Inl m)
       \<or> (\<exists>text v. Rejects (ForeignError (Abs_foreign_message ''fetch failed'')) = Resolves text
             \<and> example_JSON_parse (trim text) = Inr v \<and> (\<forall>elements. v \<noteq> JArray elements))"
    by simp
  have unparsable: "(\<exists>e. Resolves '''' = Rejects e)
       \<or> (\<exists>text m. Resolves '''' = Resolves text \<and> example_JSON_parse (trim text) = Inl m)
       \<or> (\<exists>text v. Resolves '''' = Resolves text
             \<and> example_JSON_parse (trim text) = Inr v \<and> (\<forall>elements. v \<noteq> JArray elements))"
    by (simp add: trim_def example_JSON_parse_def)
  have not_array: "(\<exists>e. Resolves ''{}'' = Rejects e)
       \<or> (\<exists>text m. Resolves ''{}'' = Resolves text \<and> example_JSON_parse (trim text) = Inl m)
       \<or> (\<exists>text v. Resolves ''{}'' = Resolves text
             \<and> example_JSON_parse (trim text) = Inr v \<and> (\<forall>elements. v \<noteq> JArray elements))"
    by (simp add: trim_def white_space_def example_JSON_parse_def)
  show ?thesis
    by (intro conjI runtime_failures_share_generic_message [OF client rejected]
        runtime_failures_share_generic_message [OF client unparsable]
        runtime_failures_share_generic_message [OF client not_array])
qed

text \<open>
  C4, amended: the call succeeds exactly when a client is available, the external call
  resolves and the trimmed response text parses to an array; the result is then the sequence
  of the elements of that array, possibly empty. The elements are not inspected.
\<close>

theorem success_returns_parsed_array:
  "fst (organizeEmails API_KEY JSON_parse outcome st emailContent) = Inr result \<longleftrightarrow>
     (ai st \<noteq> None \<or> (API_KEY \<noteq> None \<and> API_KEY \<noteq> Some []))
     \<and> (\<exists>text. outcome = Resolves text \<and> JSON_parse (trim text) = Inr (JArray result))"
proof (cases "ai st \<noteq> None \<or> (API_KEY \<noteq> None \<and> API_KEY \<noteq> Some [])")
  case True
  then obtain client st1 where c: "getAiClient API_KEY st = (Inr client, st1)"
    using getAiClient_available by blast
  show ?thesis
    using True
    by (auto simp: organizeEmails_def organizeEmails_try_def c Let_def
        split: generate_outcome.splits sum.splits json.splits)
next
  case False
  then show ?thesis
    using getAiClient_unavailable [OF False]
    by (auto simp: organizeEmails_def organizeEmails_try_def)
qed

theorem success_returns_parsed_array_witness:
  "fst (organizeEmails (Some ''key'') example_JSON_parse (Resolves ''[]'') initial_state ''hello'')
     = Inr []"
  using success_returns_parsed_array
    [of "Some ''key''" example_JSON_parse "Resolves ''[]''" initial_state "''hello''" "[]"]
  by (simp add: trim_def white_space_def example_JSON_parse_def)

text \<open>
  C4 as stated fails: the response \<^verbatim>\<open>[{}]\<close> is an array, the call succeeds with it, and its
  element has none of the required fields.
\<close>

theorem success_returns_parsed_array_counterexample:
  "fst (organizeEmails (Some ''key'') example_JSON_parse (Resolves ''[{}]'') initial_state ''hello'')
     = Inr [JObject []]
   \<and> \<not> list_all group_honors_schema [JObject []]"
  by (simp add: organizeEmails_def organizeEmails_try_def getAiClient_def initial_state_def
      Let_def trim_def white_space_def example_JSON_parse_def group_honors_schema_def has_fields_def)

end
